theory Spec2Isabelle
  imports Main
begin

text \<open>
  A model of the two streaming programs \<^verbatim>\<open>sparkpyeventskafkastreamtoconsole.py\<close> (the event
  pipeline) and \<^verbatim>\<open>sparkpyrediskafkastreamtoconsole.py\<close> (the cache-change pipeline).

  Both programs are straight-line compositions of dataframe operations. A streaming dataframe
  is modelled as the list of its records in arrival order, a record as the list of its named
  columns, and every dataframe of the programs as a function from the dataframe it is derived
  from, under the name the program gives it. A temporary view is the dataframe registered
  under its name.

  The operations the programs call (\<^verbatim>\<open>from_json\<close>, \<^verbatim>\<open>unbase64\<close>, \<^verbatim>\<open>split\<close>, \<^verbatim>\<open>getItem\<close>,
  the SQL subscript and field access, \<^verbatim>\<open>select\<close>, \<^verbatim>\<open>withColumn\<close>, \<^verbatim>\<open>where\<close>) are
  built-ins of the dataframe engine and not code of the programs. They are modelled by
  executable functions:
  \<^item> JSON texts are read by a parser for the grammar of RFC 8259; a text that is not one
    JSON value (followed by white space only) is malformed;
  \<^item> \<^verbatim>\<open>from_json\<close> reads in permissive mode: a null or malformed text, and a text whose
    value does not have the shape of the schema, yield a null struct, whose fields are all
    null once the struct is expanded by \<^verbatim>\<open>select(col('x.*'))\<close>; a field of the schema that the
    JSON object lacks is null; object members are matched with schema fields by their exact
    names, the last member of a name being the one read; members the schema does not name
    are skipped; a string field accepts every JSON value and holds the text of a value that
    is not a string;
  \<^item> \<^verbatim>\<open>unbase64\<close> decodes leniently: characters outside the Base64 alphabet are skipped,
    decoding stops at the first padding character, and leftover bits are dropped;
  \<^item> a subscript outside an array, and every operation on null, yield null;
  \<^item> strings are byte sequences (UTF-8), so a cast between binary and string keeps the bytes.
\<close>

section \<open>JSON texts\<close>

text \<open>
  A number keeps its lexeme. An object is an association list: the order of the members and
  repeated names are kept as they are in the text.
\<close>

datatype json =
    JNull
  | JBool bool
  | JNum string
  | JStr string
  | JArr "json list"
  | JObj "(string \<times> json) list"

text \<open>White space, digits and the escapes of a JSON string.\<close>

definition is_ws :: "char \<Rightarrow> bool" where
  "is_ws c = (c = CHR '' '' \<or> c = CHR 0x09 \<or> c = CHR 0x0A \<or> c = CHR 0x0D)"

definition skip_ws :: "string \<Rightarrow> string" where
  "skip_ws s = dropWhile is_ws s"

definition is_digit :: "char \<Rightarrow> bool" where
  "is_digit c = (48 \<le> (of_char c :: nat) \<and> (of_char c :: nat) \<le> 57)"

definition hex_val :: "char \<Rightarrow> nat option" where
  "hex_val c = (let n = (of_char c :: nat) in
     if 48 \<le> n \<and> n \<le> 57 then Some (n - 48)
     else if 65 \<le> n \<and> n \<le> 70 then Some (n - 55)
     else if 97 \<le> n \<and> n \<le> 102 then Some (n - 87)
     else None)"

text \<open>
  \<open>hex4\<close> reads the four hexadecimal digits of a \<^verbatim>\<open>\u\<close> escape, \<open>utf8\<close> encodes the
  code point in UTF-8.
\<close>

definition hex4 :: "string \<Rightarrow> nat option" where
  "hex4 s = (case map hex_val s of
       [Some a, Some b, Some c, Some d] \<Rightarrow> Some (a * 4096 + b * 256 + c * 16 + d)
     | _ \<Rightarrow> None)"

definition utf8 :: "nat \<Rightarrow> string" where
  "utf8 u = (if u < 128 then [char_of u]
     else if u < 2048 then [char_of (192 + u div 64), char_of (128 + u mod 64)]
     else if u < 65536 then
       [char_of (224 + u div 4096), char_of (128 + (u div 64) mod 64), char_of (128 + u mod 64)]
     else
       [char_of (240 + u div 262144), char_of (128 + (u div 4096) mod 64),
        char_of (128 + (u div 64) mod 64), char_of (128 + u mod 64)])"

definition unescape :: "char \<Rightarrow> char option" where
  "unescape e = (if e = CHR 0x22 then Some (CHR 0x22)
     else if e = CHR 0x5C then Some (CHR 0x5C)
     else if e = CHR ''/'' then Some (CHR ''/'')
     else if e = CHR ''b'' then Some (CHR 0x08)
     else if e = CHR ''f'' then Some (CHR 0x0C)
     else if e = CHR ''n'' then Some (CHR 0x0A)
     else if e = CHR ''r'' then Some (CHR 0x0D)
     else if e = CHR ''t'' then Some (CHR 0x09)
     else None)"

definition low_surrogate :: "string \<Rightarrow> nat option" where
  "low_surrogate s = (if take 2 s = [CHR 0x5C, CHR ''u''] then
       (case hex4 (take 4 (drop 2 s)) of
          None \<Rightarrow> None
        | Some l \<Rightarrow> if 56320 \<le> l \<and> l < 57344 then Some l else None)
     else None)"

text \<open>
  \<open>parse_string\<close> reads the characters of a string after its opening quote, up to and
  including the closing quote, and returns the decoded string and the rest of the input.
  A raw control character and an unknown escape are malformed. A high surrogate followed by
  a low surrogate escape is one code point.
\<close>

fun parse_string :: "string \<Rightarrow> (string \<times> string) option" where
  "parse_string [] = None"
| "parse_string (c # r) =
    (if c = CHR 0x22 then Some ([], r)
     else if c = CHR 0x5C then
       (case r of
          [] \<Rightarrow> None
        | e # r' \<Rightarrow>
            if e = CHR ''u'' then
              (case hex4 (take 4 r') of
                 None \<Rightarrow> None
               | Some u \<Rightarrow>
                   (case (if 55296 \<le> u \<and> u < 56320 then low_surrogate (drop 4 r') else None) of
                      Some l \<Rightarrow>
                        (case parse_string (drop 10 r') of
                           None \<Rightarrow> None
                         | Some (str, rest) \<Rightarrow>
                             Some (utf8 (65536 + (u - 55296) * 1024 + (l - 56320)) @ str, rest))
                    | None \<Rightarrow>
                        (case parse_string (drop 4 r') of
                           None \<Rightarrow> None
                         | Some (str, rest) \<Rightarrow> Some (utf8 u @ str, rest))))
            else
              (case unescape e of
                 None \<Rightarrow> None
               | Some d \<Rightarrow>
                   (case parse_string r' of
                      None \<Rightarrow> None
                    | Some (str, rest) \<Rightarrow> Some (d # str, rest))))
     else if (of_char c :: nat) < 32 then None
     else
       (case parse_string r of
          None \<Rightarrow> None
        | Some (str, rest) \<Rightarrow> Some (c # str, rest)))"

text \<open>Numbers: an optional minus sign, an integer part without leading zeros, an optional
  fraction and an optional exponent.\<close>

definition parse_digits :: "string \<Rightarrow> (string \<times> string) option" where
  "parse_digits s = (if takeWhile is_digit s = [] then None
     else Some (takeWhile is_digit s, dropWhile is_digit s))"

definition parse_int :: "string \<Rightarrow> (string \<times> string) option" where
  "parse_int s = (case s of
       [] \<Rightarrow> None
     | c # r \<Rightarrow> if c = CHR ''0'' then Some ([c], r) else parse_digits s)"

definition parse_frac :: "string \<Rightarrow> (string \<times> string) option" where
  "parse_frac s = (case s of
       [] \<Rightarrow> Some ([], s)
     | c # r \<Rightarrow>
         if c = CHR ''.'' then
           (case parse_digits r of None \<Rightarrow> None | Some (ds, r') \<Rightarrow> Some (c # ds, r'))
         else Some ([], s))"

definition parse_exp :: "string \<Rightarrow> (string \<times> string) option" where
  "parse_exp s = (case s of
       [] \<Rightarrow> Some ([], s)
     | c # r \<Rightarrow>
         if c = CHR ''e'' \<or> c = CHR ''E'' then
           (let sign = (case r of [] \<Rightarrow> [] | d # _ \<Rightarrow> if d = CHR ''+'' \<or> d = CHR ''-'' then [d] else [])
            in case parse_digits (drop (length sign) r) of
                 None \<Rightarrow> None
               | Some (ds, r') \<Rightarrow> Some (c # sign @ ds, r'))
         else Some ([], s))"

definition parse_number :: "string \<Rightarrow> (string \<times> string) option" where
  "parse_number s =
     (let sign = (case s of [] \<Rightarrow> [] | c # _ \<Rightarrow> if c = CHR ''-'' then [c] else [])
      in case parse_int (drop (length sign) s) of
           None \<Rightarrow> None
         | Some (i, r1) \<Rightarrow>
             (case parse_frac r1 of
                None \<Rightarrow> None
              | Some (f, r2) \<Rightarrow>
                  (case parse_exp r2 of
                     None \<Rightarrow> None
                   | Some (e, r3) \<Rightarrow> Some (sign @ i @ f @ e, r3))))"

definition parse_scalar :: "string \<Rightarrow> (json \<times> string) option" where
  "parse_scalar s =
     (if take 4 s = ''null'' then Some (JNull, drop 4 s)
      else if take 4 s = ''true'' then Some (JBool True, drop 4 s)
      else if take 5 s = ''false'' then Some (JBool False, drop 5 s)
      else (case parse_number s of None \<Rightarrow> None | Some (n, r) \<Rightarrow> Some (JNum n, r)))"

definition parse_key :: "string \<Rightarrow> (string \<times> string) option" where
  "parse_key s = (case skip_ws s of
       [] \<Rightarrow> None
     | c # r \<Rightarrow>
         if c = CHR 0x22 then
           (case parse_string r of
              None \<Rightarrow> None
            | Some (k, r') \<Rightarrow>
                (case skip_ws r' of
                   [] \<Rightarrow> None
                 | d # r'' \<Rightarrow> if d = CHR '':'' then Some (k, r'') else None))
         else None)"

text \<open>
  Values, the elements of an array after its opening bracket, and the members of an object
  after its opening brace. Each function returns what it has read and the rest of the input.
  The tests \<open>length r' < length s\<close> before the calls on a later part of the input are what
  the termination proof uses; they never fail (lemmas \<open>parse_elems_unguarded\<close> and
  \<open>parse_members_unguarded\<close> below).
\<close>

function parse_value :: "string \<Rightarrow> (json \<times> string) option"
  and parse_elems :: "string \<Rightarrow> (json list \<times> string) option"
  and parse_members :: "string \<Rightarrow> ((string \<times> json) list \<times> string) option"
where
  "parse_value s = (case skip_ws s of
       [] \<Rightarrow> None
     | c # r \<Rightarrow>
         if c = CHR ''['' then
           (case skip_ws r of
              [] \<Rightarrow> None
            | d # r' \<Rightarrow>
                if d = CHR '']'' then Some (JArr [], r')
                else (case parse_elems r of
                        None \<Rightarrow> None
                      | Some (vs, r'') \<Rightarrow> Some (JArr vs, r'')))
         else if c = CHR ''{'' then
           (case skip_ws r of
              [] \<Rightarrow> None
            | d # r' \<Rightarrow>
                if d = CHR ''}'' then Some (JObj [], r')
                else (case parse_members r of
                        None \<Rightarrow> None
                      | Some (ms, r'') \<Rightarrow> Some (JObj ms, r'')))
         else if c = CHR 0x22 then
           (case parse_string r of
              None \<Rightarrow> None
            | Some (str, r') \<Rightarrow> Some (JStr str, r'))
         else parse_scalar (c # r))"
| "parse_elems s = (case parse_value s of
       None \<Rightarrow> None
     | Some (v, r) \<Rightarrow>
         (case skip_ws r of
            [] \<Rightarrow> None
          | c # r' \<Rightarrow>
              if c = CHR '']'' then Some ([v], r')
              else if c = CHR '','' \<and> length r' < length s then
                (case parse_elems r' of
                   None \<Rightarrow> None
                 | Some (vs, r'') \<Rightarrow> Some (v # vs, r''))
              else None))"
| "parse_members s = (case parse_key s of
       None \<Rightarrow> None
     | Some (k, r0) \<Rightarrow>
         if length r0 < length s then
           (case parse_value r0 of
              None \<Rightarrow> None
            | Some (v, r) \<Rightarrow>
                (case skip_ws r of
                   [] \<Rightarrow> None
                 | c # r' \<Rightarrow>
                     if c = CHR ''}'' then Some ([(k, v)], r')
                     else if c = CHR '','' \<and> length r' < length s then
                       (case parse_members r' of
                          None \<Rightarrow> None
                        | Some (ms, r'') \<Rightarrow> Some ((k, v) # ms, r''))
                     else None))
         else None)"
  by pat_completeness auto

termination
proof (relation "measure (\<lambda>x. case x of
           Inl s \<Rightarrow> 2 * length s
         | Inr (Inl s) \<Rightarrow> 2 * length s + 1
         | Inr (Inr s) \<Rightarrow> 2 * length s + 1)", goal_cases)
  case 1
  show ?case by simp
next
  case (2 s c r d r')
  have "length (skip_ws s) \<le> length s"
    by (simp add: skip_ws_def length_dropWhile_le)
  with 2 show ?case by simp
next
  case (3 s c r d r')
  have "length (skip_ws s) \<le> length s"
    by (simp add: skip_ws_def length_dropWhile_le)
  with 3 show ?case by simp
qed simp_all

declare parse_value.simps [simp del] parse_elems.simps [simp del] parse_members.simps [simp del]

text \<open>A JSON text is one value with white space around it.\<close>

definition parse_json :: "string \<Rightarrow> json option" where
  "parse_json s = (case parse_value s of
       None \<Rightarrow> None
     | Some (v, r) \<Rightarrow> if skip_ws r = [] then Some v else None)"

section \<open>Rendering JSON values as text\<close>

text \<open>The compact text of a JSON value, which a string field holds when the value read for it
  is not a string.\<close>

definition hex_digit :: "nat \<Rightarrow> char" where
  "hex_digit n = (if n < 10 then char_of (48 + n) else char_of (55 + n))"

definition escape_char :: "char \<Rightarrow> string" where
  "escape_char c =
     (if c = CHR 0x22 then [CHR 0x5C, CHR 0x22]
      else if c = CHR 0x5C then [CHR 0x5C, CHR 0x5C]
      else if c = CHR 0x08 then [CHR 0x5C, CHR ''b'']
      else if c = CHR 0x0C then [CHR 0x5C, CHR ''f'']
      else if c = CHR 0x0A then [CHR 0x5C, CHR ''n'']
      else if c = CHR 0x0D then [CHR 0x5C, CHR ''r'']
      else if c = CHR 0x09 then [CHR 0x5C, CHR ''t'']
      else if (of_char c :: nat) < 32 then
        [CHR 0x5C, CHR ''u'', CHR ''0'', CHR ''0'',
         hex_digit (of_char c div 16), hex_digit (of_char c mod 16)]
      else [c])"

definition quote :: "string \<Rightarrow> string" where
  "quote s = CHR 0x22 # concat (map escape_char s) @ [CHR 0x22]"

fun join :: "string \<Rightarrow> string list \<Rightarrow> string" where
  "join sep [] = []"
| "join sep [x] = x"
| "join sep (x # y # ys) = x @ sep @ join sep (y # ys)"

fun json_text :: "json \<Rightarrow> string" where
  "json_text JNull = ''null''"
| "json_text (JBool b) = (if b then ''true'' else ''false'')"
| "json_text (JNum n) = n"
| "json_text (JStr s) = quote s"
| "json_text (JArr vs) = ''['' @ join '','' (map json_text vs) @ '']''"
| "json_text (JObj ms) =
     ''{'' @ join '','' (map (\<lambda>m. quote (fst m) @ '':'' @ json_text (snd m)) ms) @ ''}''"

section \<open>Base64\<close>

text \<open>
  The alphabet of RFC 4648: \<open>b64_char\<close> maps a six-bit group to its character, \<open>b64_val\<close>
  a character to its group. Three bytes \<open>x y z\<close> are the four groups \<open>sextet1 x\<close>,
  \<open>sextet2 x y\<close>, \<open>sextet3 y z\<close>, \<open>sextet4 z\<close>.
\<close>

definition b64_char :: "nat \<Rightarrow> char" where
  "b64_char n = (if n < 26 then char_of (65 + n)
     else if n < 52 then char_of (71 + n)
     else if n < 62 then char_of (n - 4)
     else if n = 62 then CHR ''+'' else CHR ''/'')"

definition b64_val :: "char \<Rightarrow> nat option" where
  "b64_val c = (let n = (of_char c :: nat) in
     if 65 \<le> n \<and> n \<le> 90 then Some (n - 65)
     else if 97 \<le> n \<and> n \<le> 122 then Some (n - 71)
     else if 48 \<le> n \<and> n \<le> 57 then Some (n + 4)
     else if c = CHR ''+'' then Some 62
     else if c = CHR ''/'' then Some 63
     else None)"

definition sextet1 :: "char \<Rightarrow> nat" where
  "sextet1 x = of_char x div 4"

definition sextet2 :: "char \<Rightarrow> char \<Rightarrow> nat" where
  "sextet2 x y = of_char x mod 4 * 16 + of_char y div 16"

definition sextet3 :: "char \<Rightarrow> char \<Rightarrow> nat" where
  "sextet3 y z = of_char y mod 16 * 4 + of_char z div 64"

definition sextet4 :: "char \<Rightarrow> nat" where
  "sextet4 z = of_char z mod 64"

fun b64_encode :: "string \<Rightarrow> string" where
  "b64_encode (x # y # z # r) =
     [b64_char (sextet1 x), b64_char (sextet2 x y), b64_char (sextet3 y z), b64_char (sextet4 z)]
       @ b64_encode r"
| "b64_encode [x, y] =
     [b64_char (sextet1 x), b64_char (sextet2 x y), b64_char (sextet3 y (CHR 0x00)), CHR ''='']"
| "b64_encode [x] =
     [b64_char (sextet1 x), b64_char (sextet2 x (CHR 0x00)), CHR ''='', CHR ''='']"
| "b64_encode [] = []"

text \<open>
  Decoding: the six-bit groups of the characters before the first \<^verbatim>\<open>=\<close>, characters outside
  the alphabet skipped; then three bytes from every four groups, two bytes from three
  remaining groups, one byte from two, none from one.
\<close>

definition b64_sextets :: "string \<Rightarrow> nat list" where
  "b64_sextets s = List.map_filter b64_val (takeWhile (\<lambda>c. c \<noteq> CHR ''='') s)"

fun b64_bytes :: "nat list \<Rightarrow> string" where
  "b64_bytes (a # b # c # d # r) =
     [char_of (a * 4 + b div 16), char_of (b mod 16 * 16 + c div 4), char_of (c mod 4 * 64 + d)]
       @ b64_bytes r"
| "b64_bytes [a, b, c] = [char_of (a * 4 + b div 16), char_of (b mod 16 * 16 + c div 4)]"
| "b64_bytes [a, b] = [char_of (a * 4 + b div 16)]"
| "b64_bytes _ = []"

definition b64_decode :: "string \<Rightarrow> string" where
  "b64_decode s = b64_bytes (b64_sextets s)"

section \<open>Column values and schemas\<close>

text \<open>
  The types the schemas of the programs use, with a \<^verbatim>\<open>StructField\<close> as the pair of its name
  and type, and the values of columns: null, a string, binary data, a boolean, an array, a
  struct with named fields.
\<close>

datatype DataType =
    StringType
  | BooleanType
  | ArrayType DataType
  | StructType "(string \<times> DataType) list"

abbreviation StructField :: "string \<Rightarrow> DataType \<Rightarrow> string \<times> DataType" where
  "StructField name t \<equiv> (name, t)"

datatype val =
    VNull
  | VStr string
  | VBin string
  | VBool bool
  | VArr "val list"
  | VStruct "(string \<times> val) list"

type_synonym row = "(string \<times> val) list"
type_synonym dataframe = "row list"

text \<open>The member of an object that is read for a field name: the last one of that name, and
  null when there is none.\<close>

definition json_field :: "(string \<times> json) list \<Rightarrow> string \<Rightarrow> json" where
  "json_field ms name = (case map_of (rev ms) name of None \<Rightarrow> JNull | Some j \<Rightarrow> j)"

text \<open>
  \<open>convert t j\<close> reads the JSON value \<open>j\<close> as a value of type \<open>t\<close>; \<open>None\<close> is a value
  that does not have the shape of the type. JSON null is null at every type.
\<close>

fun convert :: "DataType \<Rightarrow> json \<Rightarrow> val option" where
  "convert t JNull = Some VNull"
| "convert StringType (JStr s) = Some (VStr s)"
| "convert StringType j = Some (VStr (json_text j))"
| "convert BooleanType (JBool b) = Some (VBool b)"
| "convert BooleanType j = None"
| "convert (ArrayType t) (JArr js) = map_option VArr (those (map (convert t) js))"
| "convert (ArrayType t) j = None"
| "convert (StructType fs) (JObj ms) =
     map_option VStruct (those (map (\<lambda>f.
        map_option (Pair (fst f)) (convert (snd f) (json_field ms (fst f)))) fs))"
| "convert (StructType fs) j = None"

text \<open>\<^verbatim>\<open>from_json(column, schema)\<close> on the value of the column.\<close>

definition from_json :: "val \<Rightarrow> DataType \<Rightarrow> val" where
  "from_json v schema = (case v of
       VStr s \<Rightarrow>
         (case parse_json s of
            None \<Rightarrow> VNull
          | Some j \<Rightarrow> (case convert schema j of None \<Rightarrow> VNull | Some r \<Rightarrow> r))
     | _ \<Rightarrow> VNull)"

text \<open>\<^verbatim>\<open>cast(... as string)\<close> on the values the programs cast (binary data or null), and the
  Base64 functions.\<close>

definition cast_string :: "val \<Rightarrow> val" where
  "cast_string v = (case v of VBin b \<Rightarrow> VStr b | VStr s \<Rightarrow> VStr s | _ \<Rightarrow> VNull)"

definition unbase64 :: "val \<Rightarrow> val" where
  "unbase64 v = (case v of VStr s \<Rightarrow> VBin (b64_decode s) | _ \<Rightarrow> VNull)"

definition base64 :: "val \<Rightarrow> val" where
  "base64 v = (case v of VBin b \<Rightarrow> VStr (b64_encode b) | VStr s \<Rightarrow> VStr (b64_encode s) | _ \<Rightarrow> VNull)"

text \<open>
  \<^verbatim>\<open>split(column, "-")\<close>: the pattern of the program is a single literal character. The
  string is cut at every occurrence, and empty segments are kept, so the result is never
  empty.
\<close>

function split_str :: "char \<Rightarrow> string \<Rightarrow> string list" where
  "split_str d s = takeWhile (\<lambda>c. c \<noteq> d) s #
     (case dropWhile (\<lambda>c. c \<noteq> d) s of [] \<Rightarrow> [] | c # r \<Rightarrow> split_str d r)"
  by pat_completeness auto
termination
proof (relation "measure (\<lambda>(d, s). length s)", goal_cases)
  case 1
  show ?case by simp
next
  case (2 d s c r)
  have "length (dropWhile (\<lambda>c. c \<noteq> d) s) \<le> length s" by (rule length_dropWhile_le)
  with 2 show ?case by simp
qed

declare split_str.simps [simp del]

definition split_col :: "val \<Rightarrow> char \<Rightarrow> val" where
  "split_col v d = (case v of VStr s \<Rightarrow> VArr (map VStr (split_str d s)) | _ \<Rightarrow> VNull)"

text \<open>\<^verbatim>\<open>getItem(i)\<close> and the SQL subscript \<^verbatim>\<open>a[i]\<close>, the field access \<^verbatim>\<open>s.name\<close>, and the
  column \<^verbatim>\<open>col(name)\<close> of a record.\<close>

definition getItem :: "val \<Rightarrow> nat \<Rightarrow> val" where
  "getItem v i = (case v of
       VArr xs \<Rightarrow> if i < length xs then xs ! i else VNull
     | _ \<Rightarrow> VNull)"

definition getField :: "val \<Rightarrow> string \<Rightarrow> val" where
  "getField v name = (case v of
       VStruct fs \<Rightarrow> (case map_of fs name of None \<Rightarrow> VNull | Some x \<Rightarrow> x)
     | _ \<Rightarrow> VNull)"

definition col :: "row \<Rightarrow> string \<Rightarrow> val" where
  "col r name = (case map_of r name of None \<Rightarrow> VNull | Some x \<Rightarrow> x)"

text \<open>
  \<^verbatim>\<open>withColumn\<close> replaces the column of that name where the record has one and appends it
  otherwise. \<open>select_star name schema\<close> is \<^verbatim>\<open>select(col('name.*'))\<close> on a struct column
  of type \<open>schema\<close>: one column for every field of the schema (\<open>struct_row\<close>), null
  when the struct is null. \<open>select\<close> evaluates a list
  of named expressions, \<open>where_rows\<close> keeps the records that satisfy a condition.
\<close>

definition with_col :: "string \<Rightarrow> val \<Rightarrow> row \<Rightarrow> row" where
  "with_col name v r =
     (if name \<in> set (map fst r)
      then map (\<lambda>p. if fst p = name then (name, v) else p) r
      else r @ [(name, v)])"

definition withColumn :: "string \<Rightarrow> (row \<Rightarrow> val) \<Rightarrow> dataframe \<Rightarrow> dataframe" where
  "withColumn name e df = map (\<lambda>r. with_col name (e r) r) df"

definition struct_row :: "DataType \<Rightarrow> val \<Rightarrow> row" where
  "struct_row schema v =
     (case schema of
        StructType fs \<Rightarrow> map (\<lambda>f. (fst f, getField v (fst f))) fs
      | _ \<Rightarrow> [])"

definition select_star :: "string \<Rightarrow> DataType \<Rightarrow> dataframe \<Rightarrow> dataframe" where
  "select_star name schema df = map (\<lambda>r. struct_row schema (col r name)) df"

definition select :: "(string \<times> (row \<Rightarrow> val)) list \<Rightarrow> dataframe \<Rightarrow> dataframe" where
  "select es df = map (\<lambda>r. map (\<lambda>e. (fst e, snd e r)) es) df"

definition where_rows :: "(row \<Rightarrow> bool) \<Rightarrow> dataframe \<Rightarrow> dataframe" where
  "where_rows p df = filter p df"

text \<open>The source: one record for every message of the topic, with the payload of the message
  (binary, or null when the message has none) as the column \<^verbatim>\<open>value\<close>.\<close>

definition load_kafka :: "string option list \<Rightarrow> dataframe" where
  "load_kafka msgs = map (\<lambda>m. [(''value'', case m of None \<Rightarrow> VNull | Some b \<Rightarrow> VBin b)]) msgs"

section \<open>The event pipeline\<close>


definition stediEventsStreamingDF :: "dataframe \<Rightarrow> dataframe" where
  "stediEventsStreamingDF stediEventsRawStreamingDF =
     select [(''value'', \<lambda>r. cast_string (col r ''value''))] stediEventsRawStreamingDF"




section \<open>The cache-change pipeline\<close>

text \<open>\<^verbatim>\<open>sparkpyrediskafkastreamtoconsole.py\<close>: the two schemas and the dataframes in the order
  the program derives them. The program assigns \<^verbatim>\<open>emailAndBirthDayStreamingDF\<close> twice; the
  second value is \<open>emailAndBirthDayStreamingDF2\<close> here.\<close>

definition kafkaRedisSchema :: DataType where
  "kafkaRedisSchema = StructType
     [StructField ''key'' StringType,
      StructField ''value'' StringType,
      StructField ''expiredType'' StringType,
      StructField ''expiredValue'' StringType,
      StructField ''existType'' StringType,
      StructField ''ch'' StringType,
      StructField ''incr'' BooleanType,
      StructField ''zSetEntries'' (ArrayType (StructType
        [StructField ''element'' StringType,
         StructField ''score'' StringType]))]"

definition customerSchema :: DataType where
  "customerSchema = StructType
     [StructField ''customerName'' StringType,
      StructField ''email'' StringType,
      StructField ''phone'' StringType,
      StructField ''birthDay'' StringType]"

definition redisServerStreamingDF :: "dataframe \<Rightarrow> dataframe" where
  "redisServerStreamingDF redisServerRawStreamingDF =
     select [(''value'', \<lambda>r. cast_string (col r ''value''))] redisServerRawStreamingDF"

definition RedisSortedSet :: "dataframe \<Rightarrow> dataframe" where
  "RedisSortedSet df =
     select_star ''value'' kafkaRedisSchema
       (withColumn ''value'' (\<lambda>r. from_json (col r ''value'') kafkaRedisSchema) df)"

definition zSetEntriesEncodedStreamingDF :: "dataframe \<Rightarrow> dataframe" where
  "zSetEntriesEncodedStreamingDF view =
     select [(''encodedCustomer'', \<lambda>r. getField (getItem (col r ''zSetEntries'') 0) ''element'')]
       view"

definition zSetEntriesDecodedStreamingDF :: "dataframe \<Rightarrow> dataframe" where
  "zSetEntriesDecodedStreamingDF df =
     withColumn ''customer'' (\<lambda>r. cast_string (unbase64 (col r ''encodedCustomer''))) df"

definition CustomerRecords :: "dataframe \<Rightarrow> dataframe" where
  "CustomerRecords df =
     select_star ''customer'' customerSchema
       (withColumn ''customer'' (\<lambda>r. from_json (col r ''customer'') customerSchema) df)"

definition emailAndBirthDayStreamingDF :: "dataframe \<Rightarrow> dataframe" where
  "emailAndBirthDayStreamingDF view =
     select [(''email'', \<lambda>r. col r ''email''), (''birthDay'', \<lambda>r. col r ''birthDay'')]
       (where_rows (\<lambda>r. col r ''email'' \<noteq> VNull \<and> col r ''birthDay'' \<noteq> VNull) view)"

definition emailAndBirthDayStreamingDF2 :: "dataframe \<Rightarrow> dataframe" where
  "emailAndBirthDayStreamingDF2 df =
     withColumn ''birthYear'' (\<lambda>r. getItem (split_col (col r ''birthDay'') CHR ''-'') 0) df"

definition emailAndBirthYearStreamingDF :: "dataframe \<Rightarrow> dataframe" where
  "emailAndBirthYearStreamingDF df =
     select [(''email'', \<lambda>r. col r ''email''), (''birthYear'', \<lambda>r. col r ''birthYear'')] df"

text \<open>
  The stages from the view \<^verbatim>\<open>RedisSortedSet\<close> to the view \<^verbatim>\<open>CustomerRecords\<close>
  (\<open>decode_stages\<close>), the stages from \<^verbatim>\<open>CustomerRecords\<close> to the output (\<open>customer_stages\<close>),
  and the whole pipeline on the messages of the topic.
\<close>

definition customer_stages :: "dataframe \<Rightarrow> dataframe" where
  "customer_stages view =
     emailAndBirthYearStreamingDF (emailAndBirthDayStreamingDF2 (emailAndBirthDayStreamingDF view))"

definition decode_stages :: "dataframe \<Rightarrow> dataframe" where
  "decode_stages view =
     CustomerRecords (zSetEntriesDecodedStreamingDF (zSetEntriesEncodedStreamingDF view))"

definition redis_job :: "string option list \<Rightarrow> dataframe" where
  "redis_job msgs =
     customer_stages (decode_stages (RedisSortedSet (redisServerStreamingDF (load_kafka msgs))))"

section \<open>Notions for stating the properties\<close>

text \<open>The value a string field holds for a JSON value: null for JSON null, the string for a
  string, the text of the value otherwise.\<close>

definition text_of :: "json \<Rightarrow> val" where
  "text_of j = (case j of JNull \<Rightarrow> VNull | JStr s \<Rightarrow> VStr s | _ \<Rightarrow> VStr (json_text j))"

text \<open>The type of an entry of \<^verbatim>\<open>zSetEntries\<close>, and the record of a schema whose columns are all
  null.\<close>

definition entrySchema :: DataType where
  "entrySchema = StructType [StructField ''element'' StringType, StructField ''score'' StringType]"

definition null_row :: "DataType \<Rightarrow> row" where
  "null_row schema = (case schema of StructType fs \<Rightarrow> map (\<lambda>f. (fst f, VNull)) fs | _ \<Rightarrow> [])"

text \<open>
  Sample messages: the customer record and the cache-change message of the comments of
  \<^verbatim>\<open>sparkpyrediskafkastreamtoconsole.py\<close>, with the customer record Base64-encoded as the
  element of the first entry, and a risk event for the event pipeline.
\<close>

definition sample_customer :: string where
  "sample_customer = ''{\"customerName\":\"Sam Test\",\"email\":\"sam.test@test.com\",\"phone\":\"8015551212\",\"birthDay\":\"2001-01-03\"}''"

definition sample_envelope :: string where
  "sample_envelope =
     ''{\"key\":\"Q3VzdG9tZXI=\",\"existType\":\"NONE\",\"Ch\":false,\"Incr\":false,''
     @ ''\"zSetEntries\":[{\"element\":\"'' @ b64_encode sample_customer @ ''\",\"Score\":0.0}],''
     @ ''\"zsetEntries\":[{\"element\":\"'' @ b64_encode sample_customer @ ''\",\"score\":0.0}]}''"


definition sample_customer_row :: row where
  "sample_customer_row =
     [(''customerName'', VStr ''Sam Test''), (''email'', VStr ''sam.test@test.com''),
      (''phone'', VStr ''8015551212''), (''birthDay'', VStr ''2001-01-03'')]"

definition sample_entries :: val where
  "sample_entries =
     VArr [VStruct [(''element'', VStr (b64_encode sample_customer)), (''score'', VNull)]]"

definition sample_view :: dataframe where
  "sample_view =
     [[(''key'', VStr ''Q3VzdG9tZXI=''), (''value'', VNull), (''expiredType'', VNull),
       (''expiredValue'', VNull), (''existType'', VStr ''NONE''), (''ch'', VNull),
       (''incr'', VNull), (''zSetEntries'', sample_entries)]]"

definition empty_envelope :: string where
  "empty_envelope = ''{\"key\":\"dGVzdA==\",\"existType\":\"NONE\",\"zSetEntries\":[]}''"

text \<open>A view whose record has a second entry after the entry of the sample.\<close>

definition sample_view2 :: dataframe where
  "sample_view2 =
     [[(''zSetEntries'', VArr
        [VStruct [(''element'', VStr (b64_encode sample_customer)), (''score'', VNull)],
         VStruct [(''element'', VStr ''dGVzdDI=''), (''score'', VStr ''0.0'')]])]]"




section \<open>The parser consumes its input\<close>

text \<open>
  Whatever a parsing function reads, the rest it returns is shorter than its input. So the
  length tests in \<open>parse_elems\<close> and \<open>parse_members\<close> always succeed, and both functions
  satisfy their equations without the tests.
\<close>

lemma parse_string_shorter: "parse_string s = Some (str, r) \<Longrightarrow> length r < length s"
proof (induction s arbitrary: str r rule: parse_string.induct)
  case 1
  then show ?case by simp
next
  case (2 c s)
  then show ?case
    by (fastforce split: if_splits list.splits option.splits prod.splits)
qed

lemma parse_digits_shorter: "parse_digits s = Some (ds, r) \<Longrightarrow> length r < length s"
proof -
  assume h: "parse_digits s = Some (ds, r)"
  then have ne: "takeWhile is_digit s \<noteq> []" and r: "r = dropWhile is_digit s"
    by (auto simp: parse_digits_def split: if_splits)
  have "length (takeWhile is_digit s) + length (dropWhile is_digit s) = length s"
    by (metis length_append takeWhile_dropWhile_id)
  with ne r show ?thesis by (cases "takeWhile is_digit s") auto
qed

lemma parse_int_shorter: "parse_int s = Some (i, r) \<Longrightarrow> length r < length s"
  by (auto simp: parse_int_def split: list.splits if_splits dest: parse_digits_shorter)

lemma parse_frac_le: "parse_frac s = Some (f, r) \<Longrightarrow> length r \<le> length s"
  by (auto simp: parse_frac_def split: list.splits if_splits option.splits
      dest!: parse_digits_shorter)

lemma parse_exp_le: "parse_exp s = Some (e, r) \<Longrightarrow> length r \<le> length s"
proof -
  assume h: "parse_exp s = Some (e, r)"
  show ?thesis
  proof (cases s)
    case Nil
    with h show ?thesis by (simp add: parse_exp_def)
  next
    case (Cons c t)
    show ?thesis
    proof (cases "c = CHR ''e'' \<or> c = CHR ''E''")
      case False
      with h Cons show ?thesis by (auto simp: parse_exp_def)
    next
      case True
      with h Cons have "\<exists>k ds. parse_digits (drop k t) = Some (ds, r)"
        by (fastforce simp: parse_exp_def Let_def split: option.splits)
      then obtain k ds where "parse_digits (drop k t) = Some (ds, r)" by blast
      then have "length r < length (drop k t)" by (rule parse_digits_shorter)
      with Cons show ?thesis by simp
    qed
  qed
qed

lemma parse_number_shorter: "parse_number s = Some (n, r) \<Longrightarrow> length r < length s"
proof -
  assume h: "parse_number s = Some (n, r)"
  then have "\<exists>k i r1 f r2 e. parse_int (drop k s) = Some (i, r1) \<and>
      parse_frac r1 = Some (f, r2) \<and> parse_exp r2 = Some (e, r)"
    by (fastforce simp: parse_number_def Let_def split: option.splits)
  then obtain k i r1 f r2 e where
    i: "parse_int (drop k s) = Some (i, r1)"
    and f: "parse_frac r1 = Some (f, r2)"
    and e: "parse_exp r2 = Some (e, r)"
    by blast
  from i have "length r1 < length (drop k s)" by (rule parse_int_shorter)
  moreover from f have "length r2 \<le> length r1" by (rule parse_frac_le)
  moreover from e have "length r \<le> length r2" by (rule parse_exp_le)
  ultimately show ?thesis by simp
qed

lemma drop_literal_shorter:
  "take k s = w \<Longrightarrow> length w = k \<Longrightarrow> 0 < k \<Longrightarrow> length (drop k s) < length s"
proof -
  assume "take k s = w" "length w = k" "0 < k"
  then have "min (length s) k = k" by (metis length_take)
  with \<open>0 < k\<close> show ?thesis by simp
qed

lemma parse_scalar_shorter: "parse_scalar s = Some (v, r) \<Longrightarrow> length r < length s"
proof -
  assume h: "parse_scalar s = Some (v, r)"
  show ?thesis
  proof (cases "take 4 s = ''null''")
    case True
    with h have "r = drop 4 s" by (simp add: parse_scalar_def)
    with drop_literal_shorter [OF True] show ?thesis by simp
  next
    case n: False
    show ?thesis
    proof (cases "take 4 s = ''true''")
      case True
      with h n have "r = drop 4 s" by (simp add: parse_scalar_def)
      with drop_literal_shorter [OF True] show ?thesis by simp
    next
      case t: False
      show ?thesis
      proof (cases "take 5 s = ''false''")
        case True
        with h n t have "r = drop 5 s" by (simp add: parse_scalar_def)
        with drop_literal_shorter [OF True] show ?thesis by simp
      next
        case False
        with h n t obtain m where "parse_number s = Some (m, r)"
          by (auto simp: parse_scalar_def split: option.splits)
        then show ?thesis by (rule parse_number_shorter)
      qed
    qed
  qed
qed

lemma skip_ws_le: "length (skip_ws s) \<le> length s"
  by (simp add: skip_ws_def length_dropWhile_le)

lemma parse_key_shorter: "parse_key s = Some (k, r) \<Longrightarrow> length r < length s"
proof -
  assume h: "parse_key s = Some (k, r)"
  then obtain c t str r' d where
    1: "skip_ws s = c # t" and 2: "parse_string t = Some (str, r')" and 3: "skip_ws r' = d # r"
    by (auto simp: parse_key_def split: list.splits if_splits option.splits)
  from 2 have "length r' < length t" by (rule parse_string_shorter)
  moreover from 1 have "length t < length s" using skip_ws_le [of s] by simp
  moreover from 3 have "length r < length r'" using skip_ws_le [of r'] by simp
  ultimately show ?thesis by simp
qed

lemma parse_shorter:
  "(\<forall>v r. parse_value s = Some (v, r) \<longrightarrow> length r < length s)"
  "(\<forall>vs r. parse_elems s1 = Some (vs, r) \<longrightarrow> length r < length s1)"
  "(\<forall>ms r. parse_members s2 = Some (ms, r) \<longrightarrow> length r < length s2)"
proof (induction s and s1 and s2 rule: parse_value_parse_elems_parse_members.induct)
  case (1 s)
  show ?case
  proof (intro allI impI)
    fix v r
    assume h: "parse_value s = Some (v, r)"
    then obtain c t where sk: "skip_ws s = c # t"
      by (subst (asm) parse_value.simps) (auto split: list.splits)
    then have lt: "length t < length s" using skip_ws_le [of s] by simp
    show "length r < length s"
    proof (cases "c = CHR ''[''")
      case True
      from h sk True obtain d t' where sk2: "skip_ws t = d # t'"
        by (subst (asm) parse_value.simps) (auto split: list.splits)
      then have lt2: "length t' < length t" using skip_ws_le [of t] by simp
      show ?thesis
      proof (cases "d = CHR '']''")
        case True
        with h sk \<open>c = CHR ''[''\<close> sk2 have "r = t'"
          by (subst (asm) parse_value.simps) simp
        with lt lt2 show ?thesis by simp
      next
        case False
        with h sk \<open>c = CHR ''[''\<close> sk2 obtain vs where "parse_elems t = Some (vs, r)"
          by (subst (asm) parse_value.simps) (auto split: option.splits)
        with "1.IH"(1) [OF sk \<open>c = CHR ''[''\<close> sk2 False] have "length r < length t" by blast
        with lt show ?thesis by simp
      qed
    next
      case nb: False
      show ?thesis
      proof (cases "c = CHR ''{''")
        case True
        from h sk nb True obtain d t' where sk2: "skip_ws t = d # t'"
          by (subst (asm) parse_value.simps) (auto split: list.splits)
        then have lt2: "length t' < length t" using skip_ws_le [of t] by simp
        show ?thesis
        proof (cases "d = CHR ''}''")
          case True
          with h sk nb \<open>c = CHR ''{''\<close> sk2 have "r = t'"
            by (subst (asm) parse_value.simps) simp
          with lt lt2 show ?thesis by simp
        next
          case False
          with h sk nb \<open>c = CHR ''{''\<close> sk2 obtain ms where "parse_members t = Some (ms, r)"
            by (subst (asm) parse_value.simps) (auto split: option.splits)
          with "1.IH"(2) [OF sk nb \<open>c = CHR ''{''\<close> sk2 False] have "length r < length t" by blast
          with lt show ?thesis by simp
        qed
      next
        case nc: False
        show ?thesis
        proof (cases "c = CHR 0x22")
          case True
          with h sk nb nc obtain str where "parse_string t = Some (str, r)"
            by (subst (asm) parse_value.simps) (auto split: option.splits)
          then have "length r < length t" by (rule parse_string_shorter)
          with lt show ?thesis by simp
        next
          case False
          with h sk nb nc have "parse_scalar (c # t) = Some (v, r)"
            by (subst (asm) parse_value.simps) simp
          then have "length r < length (c # t)" by (rule parse_scalar_shorter)
          with sk show ?thesis using skip_ws_le [of s] by simp
        qed
      qed
    qed
  qed
next
  case (2 s)
  show ?case
  proof (intro allI impI)
    fix vs r
    assume h: "parse_elems s = Some (vs, r)"
    then obtain v r0 where pv: "parse_value s = Some (v, r0)"
      by (subst (asm) parse_elems.simps) (auto split: option.splits)
    with "2.IH"(1) have l0: "length r0 < length s" by blast
    from h pv obtain c r' where sk: "skip_ws r0 = c # r'"
      by (subst (asm) parse_elems.simps) (auto split: list.splits)
    then have l1: "length r' < length r0" using skip_ws_le [of r0] by simp
    show "length r < length s"
    proof (cases "c = CHR '']''")
      case True
      with h pv sk have "r = r'" by (subst (asm) parse_elems.simps) simp
      with l0 l1 show ?thesis by simp
    next
      case False
      with h pv sk have cc: "c = CHR '',''" and g: "length r' < length s"
        by (subst (asm) parse_elems.simps, auto split: if_splits)+
      with h pv sk False obtain vs' where "parse_elems r' = Some (vs', r)"
        by (subst (asm) parse_elems.simps) (auto split: option.splits)
      moreover from cc g have "c = CHR '','' \<and> length r' < length s" by simp
      ultimately have "length r < length r'"
        using "2.IH"(2) [OF pv refl sk False] by blast
      with g show ?thesis by simp
    qed
  qed
next
  case (3 s)
  show ?case
  proof (intro allI impI)
    fix ms r
    assume h: "parse_members s = Some (ms, r)"
    then obtain k r0 where pk: "parse_key s = Some (k, r0)"
      by (subst (asm) parse_members.simps) (auto split: option.splits)
    then have l0: "length r0 < length s" by (rule parse_key_shorter)
    from h pk l0 obtain v r1 where pv: "parse_value r0 = Some (v, r1)"
      by (subst (asm) parse_members.simps) (auto split: option.splits)
    with "3.IH"(1) [OF pk refl l0] have l1: "length r1 < length r0" by blast
    from h pk l0 pv obtain c r' where sk: "skip_ws r1 = c # r'"
      by (subst (asm) parse_members.simps) (auto split: list.splits)
    then have l2: "length r' < length r1" using skip_ws_le [of r1] by simp
    show "length r < length s"
    proof (cases "c = CHR ''}''")
      case True
      with h pk l0 pv sk have "r = r'" by (subst (asm) parse_members.simps) simp
      with l0 l1 l2 show ?thesis by simp
    next
      case False
      with h pk l0 pv sk have cc: "c = CHR '',''" and g: "length r' < length s"
        by (subst (asm) parse_members.simps, auto split: if_splits)+
      with h pk l0 pv sk False obtain ms' where "parse_members r' = Some (ms', r)"
        by (subst (asm) parse_members.simps) (auto split: option.splits)
      moreover from cc g have "c = CHR '','' \<and> length r' < length s" by simp
      ultimately have "length r < length r'"
        using "3.IH"(2) [OF pk refl l0 pv refl sk False] by blast
      with g show ?thesis by simp
    qed
  qed
qed

lemma parse_value_shorter: "parse_value s = Some (v, r) \<Longrightarrow> length r < length s"
  using parse_shorter(1) by blast

lemma parse_elems_shorter: "parse_elems s = Some (vs, r) \<Longrightarrow> length r < length s"
  using parse_shorter(2) by blast

lemma parse_members_shorter: "parse_members s = Some (ms, r) \<Longrightarrow> length r < length s"
  using parse_shorter(3) by blast

lemma parse_elems_unguarded:
  "parse_elems s = (case parse_value s of
       None \<Rightarrow> None
     | Some (v, r) \<Rightarrow>
         (case skip_ws r of
            [] \<Rightarrow> None
          | c # r' \<Rightarrow>
              if c = CHR '']'' then Some ([v], r')
              else if c = CHR '','' then
                (case parse_elems r' of
                   None \<Rightarrow> None
                 | Some (vs, r'') \<Rightarrow> Some (v # vs, r''))
              else None))"
proof (cases "parse_value s")
  case None
  then show ?thesis by (subst parse_elems.simps) simp
next
  case (Some p)
  obtain v r where p: "p = (v, r)" by (cases p)
  with Some have "length r < length s" by (simp add: parse_value_shorter)
  then have g: "length r' < length s" if "skip_ws r = c # r'" for c r'
    using that skip_ws_le [of r] by simp
  show ?thesis
  proof (cases "skip_ws r")
    case Nil
    then show ?thesis by (subst parse_elems.simps) (simp add: Some p)
  next
    case (Cons c r')
    with g have "length r' < length s" by simp
    with Cons show ?thesis by (subst parse_elems.simps) (simp add: Some p)
  qed
qed

lemma parse_members_unguarded:
  "parse_members s = (case parse_key s of
       None \<Rightarrow> None
     | Some (k, r0) \<Rightarrow>
         (case parse_value r0 of
            None \<Rightarrow> None
          | Some (v, r) \<Rightarrow>
              (case skip_ws r of
                 [] \<Rightarrow> None
               | c # r' \<Rightarrow>
                   if c = CHR ''}'' then Some ([(k, v)], r')
                   else if c = CHR '','' then
                     (case parse_members r' of
                        None \<Rightarrow> None
                      | Some (ms, r'') \<Rightarrow> Some ((k, v) # ms, r''))
                   else None)))"
proof (cases "parse_key s")
  case None
  then show ?thesis by (subst parse_members.simps) simp
next
  case (Some p)
  obtain k r0 where p: "p = (k, r0)" by (cases p)
  with Some have l0: "length r0 < length s" by (simp add: parse_key_shorter)
  show ?thesis
  proof (cases "parse_value r0")
    case None
    then show ?thesis by (subst parse_members.simps) (simp add: Some p l0)
  next
    case v: (Some q)
    obtain v r where q: "q = (v, r)" by (cases q)
    with v have "length r < length r0" by (simp add: parse_value_shorter)
    with l0 have g: "length r' < length s" if "skip_ws r = c # r'" for c r'
      using that skip_ws_le [of r] by simp
    show ?thesis
    proof (cases "skip_ws r")
      case Nil
      then show ?thesis by (subst parse_members.simps) (simp add: Some p l0 v q)
    next
      case (Cons c r')
      with g have "length r' < length s" by simp
      with Cons show ?thesis by (subst parse_members.simps) (simp add: Some p l0 v q)
    qed
  qed
qed

section \<open>Base64: decoding inverts encoding\<close>

lemma b64_val_char: "n < 64 \<Longrightarrow> b64_val (b64_char n) = Some n"
  by (auto simp: b64_val_def b64_char_def Let_def)

lemma b64_char_not_pad: "n < 64 \<Longrightarrow> b64_char n \<noteq> CHR ''=''"
  using b64_val_char [of n] by (auto simp: b64_val_def)

lemma b64_sextets_char: "n < 64 \<Longrightarrow> b64_sextets (b64_char n # s) = n # b64_sextets s"
  by (simp add: b64_sextets_def b64_char_not_pad b64_val_char List.map_filter_simps)

lemma b64_sextets_pad: "b64_sextets (CHR ''='' # s) = []"
  by (simp add: b64_sextets_def List.map_filter_simps)

lemma b64_sextets_Nil: "b64_sextets [] = []"
  by (simp add: b64_sextets_def List.map_filter_simps)

lemma of_char_div16: "(of_char c :: nat) div 16 < 16"
  by (rule less_mult_imp_div_less) simp

lemma of_char_div64: "(of_char c :: nat) div 64 < 4"
  by (rule less_mult_imp_div_less) simp

lemma of_char_div4: "(of_char c :: nat) div 4 < 64"
  by (rule less_mult_imp_div_less) simp

lemma sextet_bounds:
  "sextet1 x < 64" "sextet2 x y < 64" "sextet3 y z < 64" "sextet4 z < 64"
proof -
  show "sextet1 x < 64" unfolding sextet1_def by (rule of_char_div4)
  have "(of_char x :: nat) mod 4 < 4" by simp
  then show "sextet2 x y < 64" unfolding sextet2_def using of_char_div16 [of y] by linarith
  have "(of_char y :: nat) mod 16 < 16" by simp
  then show "sextet3 y z < 64" unfolding sextet3_def using of_char_div64 [of z] by linarith
  show "sextet4 z < 64" unfolding sextet4_def by simp
qed

lemma byte1: "char_of (sextet1 x * 4 + sextet2 x y div 16) = x"
proof -
  have "sextet1 x * 4 + sextet2 x y div 16 = of_char x"
    unfolding sextet1_def sextet2_def using of_char_div16 [of y] by simp
  then show ?thesis by (simp only: char_of_char)
qed

lemma byte2: "char_of (sextet2 x y mod 16 * 16 + sextet3 y z div 4) = y"
proof -
  have "sextet2 x y mod 16 * 16 + sextet3 y z div 4 = of_char y"
    unfolding sextet2_def sextet3_def using of_char_div16 [of y] of_char_div64 [of z] by simp
  then show ?thesis by (simp only: char_of_char)
qed

lemma byte3: "char_of (sextet3 y z mod 4 * 64 + sextet4 z) = z"
proof -
  have "sextet3 y z mod 4 * 64 + sextet4 z = of_char z"
    unfolding sextet3_def sextet4_def using of_char_div64 [of z] by simp
  then show ?thesis by (simp only: char_of_char)
qed

lemma b64_decode_encode: "b64_decode (b64_encode bs) = bs"
  unfolding b64_decode_def
proof (induction bs rule: b64_encode.induct)
  case (1 x y z r)
  then show ?case
    by (simp only: b64_encode.simps append_Cons append_Nil b64_sextets_char sextet_bounds
        b64_bytes.simps byte1 byte2 byte3)
next
  case (2 x y)
  show ?case
    by (simp only: b64_encode.simps b64_sextets_char b64_sextets_pad sextet_bounds
        b64_bytes.simps byte1 byte2)
next
  case (3 x)
  show ?case
    by (simp only: b64_encode.simps b64_sextets_char b64_sextets_pad sextet_bounds
        b64_bytes.simps byte1)
next
  case 4
  show ?case by (simp add: b64_sextets_Nil)
qed

section \<open>Schemas and records\<close>

lemma convert_StringType: "convert StringType j = Some (text_of j)"
  by (cases j) (simp_all add: text_of_def)


lemma convert_customerSchema:
  "convert customerSchema (JObj ms) = Some (VStruct
     [(''customerName'', text_of (json_field ms ''customerName'')),
      (''email'', text_of (json_field ms ''email'')),
      (''phone'', text_of (json_field ms ''phone'')),
      (''birthDay'', text_of (json_field ms ''birthDay''))])"
  by (simp add: customerSchema_def convert_StringType)

lemma convert_kafkaRedisSchema:
  "convert kafkaRedisSchema (JObj ms) =
     (case convert BooleanType (json_field ms ''incr'') of
        None \<Rightarrow> None
      | Some i \<Rightarrow>
          (case convert (ArrayType entrySchema) (json_field ms ''zSetEntries'') of
             None \<Rightarrow> None
           | Some z \<Rightarrow> Some (VStruct
               [(''key'', text_of (json_field ms ''key'')),
                (''value'', text_of (json_field ms ''value'')),
                (''expiredType'', text_of (json_field ms ''expiredType'')),
                (''expiredValue'', text_of (json_field ms ''expiredValue'')),
                (''existType'', text_of (json_field ms ''existType'')),
                (''ch'', text_of (json_field ms ''ch'')),
                (''incr'', i),
                (''zSetEntries'', z)])))"
  by (simp add: kafkaRedisSchema_def entrySchema_def convert_StringType split: option.splits)

lemmas stage_defs = select_def select_star_def withColumn_def where_rows_def

lemma col_Cons: "col ((k, v) # r) n = (if k = n then v else col r n)"
  by (simp add: col_def)

lemma struct_row_VNull: "struct_row schema VNull = null_row schema"
  by (cases schema) (simp_all add: struct_row_def null_row_def getField_def)

lemma map_of_replace_same:
  "n \<in> fst ` set r \<Longrightarrow> map_of (map (\<lambda>p. if fst p = n then (n, v) else p) r) n = Some v"
  by (induction r) auto

lemma map_of_replace_other:
  "k \<noteq> n \<Longrightarrow> map_of (map (\<lambda>p. if fst p = n then (n, v) else p) r) k = map_of r k"
  by (induction r) auto

lemma map_of_with_col_same: "map_of (with_col n v r) n = Some v"
proof (cases "n \<in> fst ` set r")
  case True
  then show ?thesis by (simp add: with_col_def map_of_replace_same)
next
  case False
  then have "map_of r n = None" by (simp add: map_of_eq_None_iff)
  with False show ?thesis by (simp add: with_col_def map_add_def)
qed

lemma map_of_with_col_other: "k \<noteq> n \<Longrightarrow> map_of (with_col n v r) k = map_of r k"
  by (auto simp: with_col_def map_of_replace_other map_add_def split: option.splits)

lemma col_with_col_same: "col (with_col n v r) n = v"
  by (simp add: col_def map_of_with_col_same)

lemma col_with_col_other: "k \<noteq> n \<Longrightarrow> col (with_col n v r) k = col r k"
  by (simp add: col_def map_of_with_col_other)


lemma RedisSortedSet_row:
  "RedisSortedSet [r] = [struct_row kafkaRedisSchema (from_json (col r ''value'') kafkaRedisSchema)]"
  by (simp add: RedisSortedSet_def select_star_def withColumn_def col_with_col_same)

lemma source_row:
  "stediEventsStreamingDF (load_kafka [m]) = [[(''value'', case m of None \<Rightarrow> VNull | Some b \<Rightarrow> VStr b)]]"
  "redisServerStreamingDF (load_kafka [m]) = [[(''value'', case m of None \<Rightarrow> VNull | Some b \<Rightarrow> VStr b)]]"
  by (cases m; simp add: stediEventsStreamingDF_def redisServerStreamingDF_def load_kafka_def
      stage_defs col_Cons cast_string_def)+

lemma encoded_row:
  "zSetEntriesEncodedStreamingDF [r] =
     [[(''encodedCustomer'', getField (getItem (col r ''zSetEntries'') 0) ''element'')]]"
  by (simp add: zSetEntriesEncodedStreamingDF_def select_def)

lemma decode_stages_row:
  "decode_stages [r] =
     [struct_row customerSchema (from_json
        (cast_string (unbase64 (getField (getItem (col r ''zSetEntries'') 0) ''element'')))
        customerSchema)]"
  by (simp add: decode_stages_def CustomerRecords_def zSetEntriesDecodedStreamingDF_def
      zSetEntriesEncodedStreamingDF_def stage_defs struct_row_def customerSchema_def
      col_Cons col_with_col_same col_with_col_other)

lemma customer_stages_row:
  "customer_stages [r] =
     (if col r ''email'' \<noteq> VNull \<and> col r ''birthDay'' \<noteq> VNull
      then [[(''email'', col r ''email''),
             (''birthYear'', getItem (split_col (col r ''birthDay'') CHR ''-'') 0)]]
      else [])"
  by (simp add: customer_stages_def emailAndBirthYearStreamingDF_def
      emailAndBirthDayStreamingDF2_def emailAndBirthDayStreamingDF_def stage_defs
      col_Cons col_with_col_same col_with_col_other)

lemma first_segment: "getItem (split_col (VStr b) d) 0 = VStr (takeWhile (\<lambda>c. c \<noteq> d) b)"
  by (simp add: getItem_def split_col_def split_str.simps [of d b])

lemma split_str_no_sep: "d \<notin> set s \<Longrightarrow> split_str d s = [s]"
proof -
  assume "d \<notin> set s"
  then have "takeWhile (\<lambda>c. c \<noteq> d) s = s" "dropWhile (\<lambda>c. c \<noteq> d) s = []"
    by auto
  then show ?thesis by (simp only: split_str.simps [of d s] list.case)
qed


lemma from_json_VNull: "from_json VNull schema = VNull"
  by (simp add: from_json_def)



lemma text_of_cases: "text_of j = VNull \<or> (\<exists>s. text_of j = VStr s)"
  by (cases j) (simp_all add: text_of_def)

lemma from_json_customerSchema_cases:
  "from_json v customerSchema = VNull \<or>
   (\<exists>ms. from_json v customerSchema = VStruct
     [(''customerName'', text_of (json_field ms ''customerName'')),
      (''email'', text_of (json_field ms ''email'')),
      (''phone'', text_of (json_field ms ''phone'')),
      (''birthDay'', text_of (json_field ms ''birthDay''))])"
proof (cases v)
  case (VStr t)
  show ?thesis
  proof (cases "parse_json t")
    case None
    with VStr show ?thesis by (simp add: from_json_def)
  next
    case (Some j)
    show ?thesis
    proof (cases j)
      case (JObj ms)
      with VStr Some have "from_json v customerSchema = VStruct
         [(''customerName'', text_of (json_field ms ''customerName'')),
          (''email'', text_of (json_field ms ''email'')),
          (''phone'', text_of (json_field ms ''phone'')),
          (''birthDay'', text_of (json_field ms ''birthDay''))]"
        by (simp add: from_json_def convert_customerSchema)
      then show ?thesis by blast
    qed (use VStr Some in \<open>simp_all add: from_json_def customerSchema_def\<close>)
  qed
qed (simp_all add: from_json_def)

lemma struct_row_customerSchema:
  "struct_row customerSchema v =
     [(''customerName'', getField v ''customerName''), (''email'', getField v ''email''),
      (''phone'', getField v ''phone''), (''birthDay'', getField v ''birthDay'')]"
  by (simp add: struct_row_def customerSchema_def)

lemma decode_stages_map:
  "decode_stages view = map (\<lambda>r. struct_row customerSchema (from_json
        (cast_string (unbase64 (getField (getItem (col r ''zSetEntries'') 0) ''element'')))
        customerSchema)) view"
  by (simp add: decode_stages_def CustomerRecords_def zSetEntriesDecodedStreamingDF_def
      zSetEntriesEncodedStreamingDF_def stage_defs o_def
      col_Cons col_with_col_same col_with_col_other)

lemma customer_stages_map:
  "customer_stages view =
     map (\<lambda>r. [(''email'', col r ''email''),
                (''birthYear'', getItem (split_col (col r ''birthDay'') CHR ''-'') 0)])
       (filter (\<lambda>r. col r ''email'' \<noteq> VNull \<and> col r ''birthDay'' \<noteq> VNull) view)"
  by (simp add: customer_stages_def emailAndBirthYearStreamingDF_def
      emailAndBirthDayStreamingDF2_def emailAndBirthDayStreamingDF_def stage_defs o_def
      col_Cons col_with_col_same col_with_col_other)

text \<open>Records of the view CustomerRecords: four columns, each null or a string.\<close>

lemma CustomerRecords_typed:
  assumes "r \<in> set (decode_stages view)"
  shows "\<exists>a b c d. r = [(''customerName'', a), (''email'', b), (''phone'', c), (''birthDay'', d)]
           \<and> (b = VNull \<or> (\<exists>s. b = VStr s)) \<and> (d = VNull \<or> (\<exists>s. d = VStr s))"
proof -
  from assms obtain v where r: "r = struct_row customerSchema (from_json v customerSchema)"
    by (auto simp: decode_stages_map)
  from from_json_customerSchema_cases [of v] show ?thesis
  proof
    assume "from_json v customerSchema = VNull"
    with r show ?thesis by (simp add: struct_row_customerSchema getField_def)
  next
    assume "\<exists>ms. from_json v customerSchema = VStruct
     [(''customerName'', text_of (json_field ms ''customerName'')),
      (''email'', text_of (json_field ms ''email'')),
      (''phone'', text_of (json_field ms ''phone'')),
      (''birthDay'', text_of (json_field ms ''birthDay''))]"
    then obtain ms where "from_json v customerSchema = VStruct
     [(''customerName'', text_of (json_field ms ''customerName'')),
      (''email'', text_of (json_field ms ''email'')),
      (''phone'', text_of (json_field ms ''phone'')),
      (''birthDay'', text_of (json_field ms ''birthDay''))]" ..
    with r have "r = [(''customerName'', text_of (json_field ms ''customerName'')),
      (''email'', text_of (json_field ms ''email'')),
      (''phone'', text_of (json_field ms ''phone'')),
      (''birthDay'', text_of (json_field ms ''birthDay''))]"
      by (simp add: struct_row_customerSchema getField_def)
    then show ?thesis
      using text_of_cases [of "json_field ms ''email''"] text_of_cases [of "json_field ms ''birthDay''"]
      by blast
  qed
qed


lemma from_json_object:
  "parse_json t = Some (JObj ms) \<Longrightarrow>
     from_json (VStr t) schema = (case convert schema (JObj ms) of None \<Rightarrow> VNull | Some v \<Rightarrow> v)"
  by (simp add: from_json_def)


lemma json_field_skip:
  "k \<noteq> k' \<Longrightarrow> json_field (ms1 @ (k', v) # ms2) k = json_field (ms1 @ ms2) k"
  by (auto simp: json_field_def map_add_def split: option.splits)

lemma sample_customer_parse:
  "parse_json sample_customer = Some (JObj
     [(''customerName'', JStr ''Sam Test''), (''email'', JStr ''sam.test@test.com''),
      (''phone'', JStr ''8015551212''), (''birthDay'', JStr ''2001-01-03'')])"
  by code_simp

lemma sample_envelope_parse:
  "parse_json sample_envelope = Some (JObj
     [(''key'', JStr ''Q3VzdG9tZXI=''), (''existType'', JStr ''NONE''),
      (''Ch'', JBool False), (''Incr'', JBool False),
      (''zSetEntries'', JArr [JObj
         [(''element'', JStr (b64_encode sample_customer)), (''Score'', JNum ''0.0'')]]),
      (''zsetEntries'', JArr [JObj
         [(''element'', JStr (b64_encode sample_customer)), (''score'', JNum ''0.0'')]])])"
  by code_simp

lemma sample_view_eq:
  "RedisSortedSet (redisServerStreamingDF (load_kafka [Some sample_envelope])) = sample_view"
  by (simp add: source_row RedisSortedSet_row col_Cons from_json_object [OF sample_envelope_parse]
      convert_kafkaRedisSchema entrySchema_def convert_StringType struct_row_def
      kafkaRedisSchema_def getField_def json_field_def text_of_def sample_view_def
      sample_entries_def)

lemma unbase64_base64: "cast_string (unbase64 (VStr (b64_encode t))) = VStr t"
  by (simp add: cast_string_def unbase64_def b64_decode_encode)

lemma sample_decoded: "decode_stages sample_view = [sample_customer_row]"
  by (simp add: sample_view_def sample_entries_def decode_stages_row col_Cons getItem_def
      getField_def unbase64_base64 from_json_object [OF sample_customer_parse]
      convert_customerSchema struct_row_customerSchema sample_customer_row_def
      json_field_def text_of_def)

lemma col_struct_row_zSetEntries:
  "col (struct_row kafkaRedisSchema v) ''zSetEntries'' = getField v ''zSetEntries''"
  by (simp add: struct_row_def kafkaRedisSchema_def col_Cons)

lemma getField_VNull: "getField VNull name = VNull"
  by (simp add: getField_def)

lemma null_chain:
  "struct_row customerSchema (from_json (cast_string (unbase64 (getField VNull ''element''))) customerSchema)
     = null_row customerSchema"
  by (simp add: getField_def unbase64_def cast_string_def from_json_VNull struct_row_VNull)

lemma customer_stages_null_row: "customer_stages [null_row customerSchema] = []"
  by (simp add: customer_stages_row null_row_def customerSchema_def col_Cons)

lemma sample_element:
  "b64_encode sample_customer = ''eyJjdXN0b21lck5hbWUiOiJTYW0gVGVzdCIsImVtYWlsIjoic2FtLnRlc3RAdGVzdC5jb20iLCJwaG9uZSI6IjgwMTU1NTEyMTIiLCJiaXJ0aERheSI6IjIwMDEtMDEtMDMifQ==''"
  by code_simp


lemma struct_row_kafkaRedisSchema:
  "struct_row kafkaRedisSchema v =
     [(''key'', getField v ''key''), (''value'', getField v ''value''),
      (''expiredType'', getField v ''expiredType''), (''expiredValue'', getField v ''expiredValue''),
      (''existType'', getField v ''existType''), (''ch'', getField v ''ch''),
      (''incr'', getField v ''incr''), (''zSetEntries'', getField v ''zSetEntries'')]"
  by (simp add: struct_row_def kafkaRedisSchema_def)

lemma convert_entrySchema:
  "convert entrySchema (JObj es) = Some (VStruct
     [(''element'', text_of (json_field es ''element'')),
      (''score'', text_of (json_field es ''score''))])"
  by (simp add: entrySchema_def convert_StringType)

lemma base64_VStr: "base64 (VStr t) = VStr (b64_encode t)"
  by (simp add: base64_def)

lemma decode_first_entry:
  assumes "col r ''zSetEntries'' = VArr (VStruct [(''element'', VStr (b64_encode t)), (''score'', sc)] # entries)"
  shows "decode_stages [r] = [struct_row customerSchema (from_json (VStr t) customerSchema)]"
  using assms by (simp add: decode_stages_row getItem_def getField_def unbase64_base64)

lemma RedisSortedSet_map:
  "RedisSortedSet df =
     map (\<lambda>r. struct_row kafkaRedisSchema (from_json (col r ''value'') kafkaRedisSchema)) df"
  by (simp add: RedisSortedSet_def select_star_def withColumn_def col_with_col_same o_def)

lemma convert_skip_zsetEntries:
  "convert kafkaRedisSchema (JObj (ms1 @ (''zsetEntries'', v) # ms2)) =
   convert kafkaRedisSchema (JObj (ms1 @ ms2))"
  by (simp add: convert_kafkaRedisSchema json_field_skip cong: option.case_cong)

section \<open>Properties of the pipelines\<close>

text \<open>
  Claim C1. The cache-change pipeline, run on the sample message (the customer record of
  Sam Test, Base64-encoded as the element of the first entry of \<^verbatim>\<open>zSetEntries\<close> of the
  envelope), produces exactly one record: email \<^verbatim>\<open>sam.test@test.com\<close>, birthYear \<^verbatim>\<open>2001\<close>.
\<close>

theorem C1_sample_customer_row:
  "redis_job [Some sample_envelope] =
     [[(''email'', VStr ''sam.test@test.com''), (''birthYear'', VStr ''2001'')]]"
  by (simp add: redis_job_def sample_view_eq sample_decoded customer_stages_row
      sample_customer_row_def col_Cons first_segment)



text \<open>
  Claim C3. For every record of the view \<^verbatim>\<open>CustomerRecords\<close> that passes the null filter,
  the birthDay is a string and the birthYear of the output record is the part of it before
  the first \<^verbatim>\<open>-\<close>; a record whose birthDay is null produces no output record; and the
  birthDay \<^verbatim>\<open>1963-04-12\<close> gives the birthYear \<^verbatim>\<open>1963\<close>.
\<close>

theorem C3_birth_year:
  "(\<forall>r \<in> set (decode_stages view).
      col r ''email'' \<noteq> VNull \<and> col r ''birthDay'' \<noteq> VNull \<longrightarrow>
      (\<exists>b. col r ''birthDay'' = VStr b \<and>
           customer_stages [r] =
             [[(''email'', col r ''email''),
               (''birthYear'', VStr (takeWhile (\<lambda>c. c \<noteq> CHR ''-'') b))]]))
   \<and> (\<forall>r. col r ''birthDay'' = VNull \<longrightarrow> customer_stages [r] = [])
   \<and> customer_stages [[(''customerName'', n), (''email'', VStr e), (''phone'', p),
          (''birthDay'', VStr ''1963-04-12'')]] =
        [[(''email'', VStr e), (''birthYear'', VStr ''1963'')]]"
proof (intro conjI ballI allI impI)
  fix r
  assume r: "r \<in> set (decode_stages view)"
    and nn: "col r ''email'' \<noteq> VNull \<and> col r ''birthDay'' \<noteq> VNull"
  from CustomerRecords_typed [OF r] obtain a b c d where
    shape: "r = [(''customerName'', a), (''email'', b), (''phone'', c), (''birthDay'', d)]"
    and d: "d = VNull \<or> (\<exists>s. d = VStr s)"
    by blast
  from shape nn have "d \<noteq> VNull" by (simp add: col_Cons)
  with d obtain s where s: "d = VStr s" by blast
  with shape have bd: "col r ''birthDay'' = VStr s" by (simp add: col_Cons)
  with nn have "customer_stages [r] =
      [[(''email'', col r ''email''), (''birthYear'', VStr (takeWhile (\<lambda>c. c \<noteq> CHR ''-'') s))]]"
    by (simp add: customer_stages_row first_segment)
  with bd show "\<exists>b. col r ''birthDay'' = VStr b \<and>
           customer_stages [r] =
             [[(''email'', col r ''email''),
               (''birthYear'', VStr (takeWhile (\<lambda>c. c \<noteq> CHR ''-'') b))]]"
    by blast
next
  fix r
  assume "col r ''birthDay'' = VNull"
  then show "customer_stages [r] = []" by (simp add: customer_stages_row)
next
  show "customer_stages [[(''customerName'', n), (''email'', VStr e), (''phone'', p),
          (''birthDay'', VStr ''1963-04-12'')]] =
        [[(''email'', VStr e), (''birthYear'', VStr ''1963'')]]"
    by (simp add: customer_stages_row first_segment col_Cons)
qed

text \<open>The record decoded from the sample message passes the filter; its birthYear is 2001.\<close>

theorem C3_birth_year_witness:
  "sample_customer_row \<in> set (decode_stages sample_view)
   \<and> col sample_customer_row ''email'' \<noteq> VNull
   \<and> col sample_customer_row ''birthDay'' = VStr ''2001-01-03''
   \<and> customer_stages [sample_customer_row] =
       [[(''email'', VStr ''sam.test@test.com''), (''birthYear'', VStr ''2001'')]]"
proof -
  have m: "sample_customer_row \<in> set (decode_stages sample_view)"
    by (simp add: sample_decoded)
  have e: "col sample_customer_row ''email'' = VStr ''sam.test@test.com''"
    by (simp add: sample_customer_row_def col_Cons)
  have b: "col sample_customer_row ''birthDay'' = VStr ''2001-01-03''"
    by (simp add: sample_customer_row_def col_Cons)
  from C3_birth_year [of sample_view] m e b
  obtain y where "col sample_customer_row ''birthDay'' = VStr y"
    and "customer_stages [sample_customer_row] =
       [[(''email'', col sample_customer_row ''email''),
         (''birthYear'', VStr (takeWhile (\<lambda>c. c \<noteq> CHR ''-'') y))]]"
    by fastforce
  with e b have "customer_stages [sample_customer_row] =
       [[(''email'', VStr ''sam.test@test.com''), (''birthYear'', VStr ''2001'')]]"
    by simp
  with m e b show ?thesis by simp
qed

text \<open>
  Claim C4. For every cache-change message that is a JSON object with an empty
  \<^verbatim>\<open>zSetEntries\<close> array: the subscript 0 of the empty array is null, the encoded customer
  is null, the record of \<^verbatim>\<open>CustomerRecords\<close> has null columns only, and the pipeline
  produces no output record for the message.
\<close>

theorem C4_empty_entries:
  assumes "parse_json t = Some (JObj ms)"
    and "json_field ms ''zSetEntries'' = JArr []"
  shows "getItem (VArr []) 0 = VNull
     \<and> zSetEntriesEncodedStreamingDF (RedisSortedSet (redisServerStreamingDF (load_kafka [Some t])))
         = [[(''encodedCustomer'', VNull)]]
     \<and> decode_stages (RedisSortedSet (redisServerStreamingDF (load_kafka [Some t])))
         = [null_row customerSchema]
     \<and> redis_job [Some t] = []"
proof -
  let ?v = "from_json (VStr t) kafkaRedisSchema"
  have z: "getField ?v ''zSetEntries'' = VNull \<or> getField ?v ''zSetEntries'' = VArr []"
    using assms
    by (simp add: from_json_object convert_kafkaRedisSchema getField_def split: option.splits)
  then have i: "getItem (getField ?v ''zSetEntries'') 0 = VNull"
    by (auto simp: getItem_def)
  have view: "RedisSortedSet (redisServerStreamingDF (load_kafka [Some t]))
      = [struct_row kafkaRedisSchema ?v]"
    by (simp add: source_row RedisSortedSet_row col_Cons)
  have 1: "getItem (VArr []) 0 = VNull" by (simp add: getItem_def)
  have 2: "zSetEntriesEncodedStreamingDF [struct_row kafkaRedisSchema ?v]
      = [[(''encodedCustomer'', VNull)]]"
    by (simp only: encoded_row col_struct_row_zSetEntries i getField_VNull)
  have 3: "decode_stages [struct_row kafkaRedisSchema ?v] = [null_row customerSchema]"
    by (simp only: decode_stages_row col_struct_row_zSetEntries i null_chain)
  have 4: "redis_job [Some t] = []"
    by (simp add: redis_job_def view 3 customer_stages_null_row)
  from 1 2 3 4 view show ?thesis by simp
qed

text \<open>A message with an empty array of entries.\<close>

theorem C4_empty_entries_witness:
  "parse_json empty_envelope = Some (JObj
       [(''key'', JStr ''dGVzdA==''), (''existType'', JStr ''NONE''), (''zSetEntries'', JArr [])])
   \<and> redis_job [Some empty_envelope] = []"
proof -
  let ?ms = "[(''key'', JStr ''dGVzdA==''), (''existType'', JStr ''NONE''), (''zSetEntries'', JArr [])]"
  have p: "parse_json empty_envelope = Some (JObj ?ms)" by code_simp
  have z: "json_field ?ms ''zSetEntries'' = JArr []" by code_simp
  show ?thesis using p C4_empty_entries [OF p z] by simp
qed

text \<open>
  Claim C5. Every record the cache-change pipeline emits has exactly the columns email and
  birthYear, neither of them null; and every record of \<^verbatim>\<open>CustomerRecords\<close> whose email or
  birthDay is null is excluded from the output.
\<close>

theorem C5_no_null_output:
  "(\<forall>row \<in> set (redis_job msgs).
      map fst row = [''email'', ''birthYear''] \<and>
      col row ''email'' \<noteq> VNull \<and> col row ''birthYear'' \<noteq> VNull)
   \<and> (\<forall>r \<in> set (decode_stages view).
      col r ''email'' = VNull \<or> col r ''birthDay'' = VNull \<longrightarrow> customer_stages [r] = [])"
proof (intro conjI ballI impI)
  fix row
  assume "row \<in> set (redis_job msgs)"
  then obtain r where
    r: "r \<in> set (decode_stages (RedisSortedSet (redisServerStreamingDF (load_kafka msgs))))"
    and nn: "col r ''email'' \<noteq> VNull" "col r ''birthDay'' \<noteq> VNull"
    and row: "row = [(''email'', col r ''email''),
                     (''birthYear'', getItem (split_col (col r ''birthDay'') CHR ''-'') 0)]"
    by (auto simp: redis_job_def customer_stages_map)
  from CustomerRecords_typed [OF r] obtain a b c d where
    shape: "r = [(''customerName'', a), (''email'', b), (''phone'', c), (''birthDay'', d)]"
    and d: "d = VNull \<or> (\<exists>s. d = VStr s)"
    by blast
  from shape nn(2) have "d \<noteq> VNull" by (simp add: col_Cons)
  with d obtain s where "d = VStr s" by blast
  with shape have "col r ''birthDay'' = VStr s" by (simp add: col_Cons)
  with row have row': "row = [(''email'', col r ''email''),
      (''birthYear'', VStr (takeWhile (\<lambda>c. c \<noteq> CHR ''-'') s))]"
    by (simp add: first_segment)
  from row' show "map fst row = [''email'', ''birthYear'']" by simp
  from row' nn(1) show "col row ''email'' \<noteq> VNull" by (simp add: col_Cons)
  from row' show "col row ''birthYear'' \<noteq> VNull" by (simp add: col_Cons)
next
  fix r
  assume "col r ''email'' = VNull \<or> col r ''birthDay'' = VNull"
  then show "customer_stages [r] = []" by (auto simp: customer_stages_row)
qed

text \<open>The record emitted for the sample message, and the all-null record of an envelope
  without entries.\<close>

theorem C5_no_null_output_witness:
  "[(''email'', VStr ''sam.test@test.com''), (''birthYear'', VStr ''2001'')]
     \<in> set (redis_job [Some sample_envelope])
   \<and> col [(''email'', VStr ''sam.test@test.com''), (''birthYear'', VStr ''2001'')] ''email'' \<noteq> VNull
   \<and> col [(''email'', VStr ''sam.test@test.com''), (''birthYear'', VStr ''2001'')] ''birthYear'' \<noteq> VNull
   \<and> null_row customerSchema \<in> set (decode_stages [[(''zSetEntries'', VArr [])]])
   \<and> col (null_row customerSchema) ''email'' = VNull
   \<and> customer_stages [null_row customerSchema] = []"
proof -
  let ?row = "[(''email'', VStr ''sam.test@test.com''), (''birthYear'', VStr ''2001'')]"
  have m: "?row \<in> set (redis_job [Some sample_envelope])"
    by (simp add: redis_job_def sample_view_eq sample_decoded customer_stages_row
        sample_customer_row_def col_Cons first_segment)
  have n: "null_row customerSchema \<in> set (decode_stages [[(''zSetEntries'', VArr [])]])"
    by (simp add: decode_stages_row col_Cons getItem_def null_chain)
  have e: "col (null_row customerSchema) ''email'' = VNull"
    by (simp add: null_row_def customerSchema_def col_Cons)
  from C5_no_null_output [of "[Some sample_envelope]" "[[(''zSetEntries'', VArr [])]]"] m n e
  show ?thesis by blast
qed




text \<open>
  Claim C7. Base64 decoding inverts encoding. For every text \<open>t\<close>, a record of
  \<^verbatim>\<open>RedisSortedSet\<close> whose first entry has the Base64 encoding of \<open>t\<close> as its element is
  decoded (subscript 0, Base64 decoding, JSON decoding) to the record that decoding \<open>t\<close>
  itself gives; when \<open>t\<close> is a JSON object with strings for the four customer fields, the
  decoded record holds exactly these four strings. The same holds from the text of an
  envelope whose only entry holds the encoding of \<open>t\<close>.
\<close>

theorem C7_round_trip:
  assumes "col r ''zSetEntries'' =
      VArr (VStruct [(''element'', base64 (VStr t)), (''score'', sc)] # entries)"
  shows "b64_decode (b64_encode t) = t
    \<and> decode_stages [r] = [struct_row customerSchema (from_json (VStr t) customerSchema)]
    \<and> (parse_json t = Some (JObj ms) \<and> json_field ms ''customerName'' = JStr n \<and>
        json_field ms ''email'' = JStr e \<and> json_field ms ''phone'' = JStr p \<and>
        json_field ms ''birthDay'' = JStr b \<longrightarrow>
        decode_stages [r] =
          [[(''customerName'', VStr n), (''email'', VStr e), (''phone'', VStr p),
            (''birthDay'', VStr b)]])
    \<and> (parse_json env = Some (JObj ems) \<and> json_field ems ''zSetEntries'' = JArr [JObj es] \<and>
        json_field es ''element'' = JStr (b64_encode t) \<and> json_field ems ''incr'' = JNull \<longrightarrow>
        decode_stages (RedisSortedSet (redisServerStreamingDF (load_kafka [Some env]))) =
          [struct_row customerSchema (from_json (VStr t) customerSchema)])"
proof (intro conjI impI)
  show "b64_decode (b64_encode t) = t" by (rule b64_decode_encode)
  from assms have z: "col r ''zSetEntries'' =
      VArr (VStruct [(''element'', VStr (b64_encode t)), (''score'', sc)] # entries)"
    by (simp add: base64_VStr)
  show d: "decode_stages [r] = [struct_row customerSchema (from_json (VStr t) customerSchema)]"
    by (rule decode_first_entry [OF z])
  {
    assume h: "parse_json t = Some (JObj ms) \<and> json_field ms ''customerName'' = JStr n \<and>
        json_field ms ''email'' = JStr e \<and> json_field ms ''phone'' = JStr p \<and>
        json_field ms ''birthDay'' = JStr b"
    then have t: "parse_json t = Some (JObj ms)" by simp
    from h show "decode_stages [r] =
          [[(''customerName'', VStr n), (''email'', VStr e), (''phone'', VStr p),
            (''birthDay'', VStr b)]]"
      by (simp add: d from_json_object [OF t] convert_customerSchema struct_row_customerSchema
          getField_def text_of_def)
  }
  {
    assume h: "parse_json env = Some (JObj ems) \<and> json_field ems ''zSetEntries'' = JArr [JObj es] \<and>
        json_field es ''element'' = JStr (b64_encode t) \<and> json_field ems ''incr'' = JNull"
    then have env: "parse_json env = Some (JObj ems)" by simp
    let ?row = "struct_row kafkaRedisSchema (from_json (VStr env) kafkaRedisSchema)"
    have view: "RedisSortedSet (redisServerStreamingDF (load_kafka [Some env])) = [?row]"
      by (simp add: source_row RedisSortedSet_row col_Cons)
    from h have "col ?row ''zSetEntries'' =
        VArr (VStruct [(''element'', VStr (b64_encode t)),
                       (''score'', text_of (json_field es ''score''))] # [])"
      by (simp add: col_struct_row_zSetEntries from_json_object [OF env] convert_kafkaRedisSchema
          convert_entrySchema getField_def text_of_def)
    then have "decode_stages [?row] = [struct_row customerSchema (from_json (VStr t) customerSchema)]"
      by (rule decode_first_entry)
    with view show "decode_stages (RedisSortedSet (redisServerStreamingDF (load_kafka [Some env]))) =
          [struct_row customerSchema (from_json (VStr t) customerSchema)]"
      by simp
  }
qed

text \<open>The sample message and its customer record.\<close>

theorem C7_round_trip_witness:
  "col (hd sample_view) ''zSetEntries'' =
      VArr (VStruct [(''element'', base64 (VStr sample_customer)), (''score'', VNull)] # [])
   \<and> parse_json sample_customer = Some (JObj
       [(''customerName'', JStr ''Sam Test''), (''email'', JStr ''sam.test@test.com''),
        (''phone'', JStr ''8015551212''), (''birthDay'', JStr ''2001-01-03'')])
   \<and> decode_stages [hd sample_view] =
       [[(''customerName'', VStr ''Sam Test''), (''email'', VStr ''sam.test@test.com''),
         (''phone'', VStr ''8015551212''), (''birthDay'', VStr ''2001-01-03'')]]
   \<and> decode_stages (RedisSortedSet (redisServerStreamingDF (load_kafka [Some sample_envelope]))) =
       [[(''customerName'', VStr ''Sam Test''), (''email'', VStr ''sam.test@test.com''),
         (''phone'', VStr ''8015551212''), (''birthDay'', VStr ''2001-01-03'')]]"
proof -
  let ?ms = "[(''customerName'', JStr ''Sam Test''), (''email'', JStr ''sam.test@test.com''),
        (''phone'', JStr ''8015551212''), (''birthDay'', JStr ''2001-01-03'')]"
  let ?ems = "[(''key'', JStr ''Q3VzdG9tZXI=''), (''existType'', JStr ''NONE''),
      (''Ch'', JBool False), (''Incr'', JBool False),
      (''zSetEntries'', JArr [JObj
         [(''element'', JStr (b64_encode sample_customer)), (''Score'', JNum ''0.0'')]]),
      (''zsetEntries'', JArr [JObj
         [(''element'', JStr (b64_encode sample_customer)), (''score'', JNum ''0.0'')]])]"
  let ?es = "[(''element'', JStr (b64_encode sample_customer)), (''Score'', JNum ''0.0'')]"
  have z: "col (hd sample_view) ''zSetEntries'' =
      VArr (VStruct [(''element'', base64 (VStr sample_customer)), (''score'', VNull)] # [])"
    by (simp add: sample_view_def sample_entries_def col_Cons base64_VStr)
  have f: "json_field ?ms ''customerName'' = JStr ''Sam Test''"
    "json_field ?ms ''email'' = JStr ''sam.test@test.com''"
    "json_field ?ms ''phone'' = JStr ''8015551212''"
    "json_field ?ms ''birthDay'' = JStr ''2001-01-03''"
    by (simp_all add: json_field_def)
  have g: "json_field ?ems ''zSetEntries'' = JArr [JObj ?es]"
    "json_field ?es ''element'' = JStr (b64_encode sample_customer)"
    "json_field ?ems ''incr'' = JNull"
    by (simp_all add: json_field_def)
  note c7 = C7_round_trip [OF z, of ?ms "''Sam Test''" "''sam.test@test.com''" "''8015551212''"
      "''2001-01-03''" sample_envelope ?ems ?es]
  from c7 sample_customer_parse f have 1: "decode_stages [hd sample_view] =
       [[(''customerName'', VStr ''Sam Test''), (''email'', VStr ''sam.test@test.com''),
         (''phone'', VStr ''8015551212''), (''birthDay'', VStr ''2001-01-03'')]]"
    by blast
  from c7 sample_envelope_parse g
  have "decode_stages (RedisSortedSet (redisServerStreamingDF (load_kafka [Some sample_envelope]))) =
      [struct_row customerSchema (from_json (VStr sample_customer) customerSchema)]"
    by blast
  moreover from c7 have "decode_stages [hd sample_view] =
      [struct_row customerSchema (from_json (VStr sample_customer) customerSchema)]"
    by blast
  ultimately have 2: "decode_stages (RedisSortedSet (redisServerStreamingDF (load_kafka [Some sample_envelope]))) =
       [[(''customerName'', VStr ''Sam Test''), (''email'', VStr ''sam.test@test.com''),
         (''phone'', VStr ''8015551212''), (''birthDay'', VStr ''2001-01-03'')]]"
    using 1 by simp
  from z sample_customer_parse 1 2 show ?thesis by blast
qed


text \<open>
  Claim C9. The encoded customer of a record is the element of the first entry of
  \<^verbatim>\<open>zSetEntries\<close>: two records that agree on the first entry give the same encoded customer
  and the same output, whatever the other entries are. Every record of \<^verbatim>\<open>RedisSortedSet\<close>
  has the eight columns of the schema, \<^verbatim>\<open>zSetEntries\<close> once, and a member \<^verbatim>\<open>zsetEntries\<close>
  of the envelope is not read: the parsed record is the same with and without it.
\<close>

theorem C9_first_entry_only:
  "(col r1 ''zSetEntries'' = VArr (x # xs) \<and> col r2 ''zSetEntries'' = VArr (x # ys) \<longrightarrow>
      zSetEntriesEncodedStreamingDF [r1] = [[(''encodedCustomer'', getField x ''element'')]]
    \<and> zSetEntriesEncodedStreamingDF [r2] = zSetEntriesEncodedStreamingDF [r1]
    \<and> customer_stages (decode_stages [r2]) = customer_stages (decode_stages [r1]))
   \<and> (\<forall>r \<in> set (RedisSortedSet df).
        map fst r = [''key'', ''value'', ''expiredType'', ''expiredValue'', ''existType'', ''ch'',
                     ''incr'', ''zSetEntries''])
   \<and> convert kafkaRedisSchema (JObj (ms1 @ (''zsetEntries'', v) # ms2)) =
       convert kafkaRedisSchema (JObj (ms1 @ ms2))"
proof (intro conjI impI ballI)
  assume h: "col r1 ''zSetEntries'' = VArr (x # xs) \<and> col r2 ''zSetEntries'' = VArr (x # ys)"
  then show "zSetEntriesEncodedStreamingDF [r1] = [[(''encodedCustomer'', getField x ''element'')]]"
    by (simp add: encoded_row getItem_def)
  from h show "zSetEntriesEncodedStreamingDF [r2] = zSetEntriesEncodedStreamingDF [r1]"
    by (simp add: encoded_row getItem_def)
  from h have "decode_stages [r2] = decode_stages [r1]"
    by (simp add: decode_stages_row getItem_def)
  then show "customer_stages (decode_stages [r2]) = customer_stages (decode_stages [r1])"
    by simp
next
  fix r
  assume "r \<in> set (RedisSortedSet df)"
  then show "map fst r = [''key'', ''value'', ''expiredType'', ''expiredValue'', ''existType'',
      ''ch'', ''incr'', ''zSetEntries'']"
    by (auto simp: RedisSortedSet_map struct_row_kafkaRedisSchema)
next
  show "convert kafkaRedisSchema (JObj (ms1 @ (''zsetEntries'', v) # ms2)) =
       convert kafkaRedisSchema (JObj (ms1 @ ms2))"
    by (rule convert_skip_zsetEntries)
qed

text \<open>The sample record, alone and with a second entry after the first.\<close>

theorem C9_first_entry_only_witness:
  "col (hd sample_view) ''zSetEntries'' =
      VArr (VStruct [(''element'', VStr (b64_encode sample_customer)), (''score'', VNull)] # [])
   \<and> col (hd sample_view2) ''zSetEntries'' =
      VArr (VStruct [(''element'', VStr (b64_encode sample_customer)), (''score'', VNull)]
            # [VStruct [(''element'', VStr ''dGVzdDI=''), (''score'', VStr ''0.0'')]])
   \<and> customer_stages (decode_stages [hd sample_view2]) =
       [[(''email'', VStr ''sam.test@test.com''), (''birthYear'', VStr ''2001'')]]
   \<and> hd sample_view \<in> set (RedisSortedSet (redisServerStreamingDF (load_kafka [Some sample_envelope])))
   \<and> map fst (hd sample_view) =
       [''key'', ''value'', ''expiredType'', ''expiredValue'', ''existType'', ''ch'',
        ''incr'', ''zSetEntries'']"
proof -
  let ?x = "VStruct [(''element'', VStr (b64_encode sample_customer)), (''score'', VNull)]"
  have a: "col (hd sample_view) ''zSetEntries'' = VArr (?x # [])"
    by (simp add: sample_view_def sample_entries_def col_Cons)
  have b: "col (hd sample_view2) ''zSetEntries'' =
      VArr (?x # [VStruct [(''element'', VStr ''dGVzdDI=''), (''score'', VStr ''0.0'')]])"
    by (simp add: sample_view2_def col_Cons)
  have m: "hd sample_view \<in> set (RedisSortedSet (redisServerStreamingDF (load_kafka [Some sample_envelope])))"
    by (simp add: sample_view_eq) (simp add: sample_view_def)
  have s: "customer_stages (decode_stages [hd sample_view]) =
       [[(''email'', VStr ''sam.test@test.com''), (''birthYear'', VStr ''2001'')]]"
  proof -
    have "[hd sample_view] = sample_view" by (simp add: sample_view_def)
    then show ?thesis
      by (simp add: sample_decoded customer_stages_row sample_customer_row_def col_Cons
          first_segment)
  qed
  note c9 = C9_first_entry_only [of "hd sample_view" ?x "[]" "hd sample_view2"
      "[VStruct [(''element'', VStr ''dGVzdDI=''), (''score'', VStr ''0.0'')]]"
      "redisServerStreamingDF (load_kafka [Some sample_envelope])"]
  from c9 a b have "customer_stages (decode_stages [hd sample_view2]) =
      customer_stages (decode_stages [hd sample_view])"
    by blast
  with s have 1: "customer_stages (decode_stages [hd sample_view2]) =
       [[(''email'', VStr ''sam.test@test.com''), (''birthYear'', VStr ''2001'')]]"
    by simp
  from c9 m have 2: "map fst (hd sample_view) =
       [''key'', ''value'', ''expiredType'', ''expiredValue'', ''existType'', ''ch'',
        ''incr'', ''zSetEntries'']"
    by blast
  from a b 1 m 2 show ?thesis by blast
qed

text \<open>
  Claim C10. A record with a non-null email and a birthDay string without \<^verbatim>\<open>-\<close> is not
  filtered out, and its birthYear is the whole birthDay: the split gives one segment.
\<close>

theorem C10_no_hyphen:
  assumes "col r ''email'' = ev" and "ev \<noteq> VNull"
    and "col r ''birthDay'' = VStr b" and "CHR ''-'' \<notin> set b"
  shows "customer_stages [r] = [[(''email'', ev), (''birthYear'', VStr b)]]
         \<and> split_col (VStr b) CHR ''-'' = VArr [VStr b]"
proof -
  from assms(4) have seg: "split_str CHR ''-'' b = [b]" by (rule split_str_no_sep)
  with assms(1-3) show ?thesis
    by (simp add: customer_stages_row split_col_def getItem_def)
qed

text \<open>The birthDay \<^verbatim>\<open>1963\<close>.\<close>

theorem C10_no_hyphen_witness:
  "col [(''email'', VStr ''gail@test.com''), (''birthDay'', VStr ''1963'')] ''email'' \<noteq> VNull
   \<and> CHR ''-'' \<notin> set ''1963''
   \<and> customer_stages [[(''email'', VStr ''gail@test.com''), (''birthDay'', VStr ''1963'')]] =
       [[(''email'', VStr ''gail@test.com''), (''birthYear'', VStr ''1963'')]]"
proof -
  let ?r = "[(''email'', VStr ''gail@test.com''), (''birthDay'', VStr ''1963'')]"
  have e: "col ?r ''email'' = VStr ''gail@test.com''" by (simp add: col_Cons)
  have n: "VStr ''gail@test.com'' \<noteq> VNull" by simp
  have b: "col ?r ''birthDay'' = VStr ''1963''" by (simp add: col_Cons)
  have h: "CHR ''-'' \<notin> set ''1963''" by simp
  show ?thesis using e h C10_no_hyphen [OF e n b h] by simp
qed

end
